theory Spec2Isabelle
  imports Main "HOL-Library.Sublist"
begin

section \<open>Strings and sequences as Python has them\<close>

text \<open>
  A Python \<open>str\<close> is a sequence of code points. It is modelled as a \<open>string\<close> whose
  characters stand for the code points U+0000 to U+00FF, the range on which the character
  classes used by \<open>catalogue.py\<close> (\<open>str.lower\<close>, \<open>str.strip\<close>, the regex classes
  \<open>\w\<close>, \<open>\s\<close> and \<open>.\<close>) are written out below.
\<close>

datatype py_error = IndexError | NetworkError

text \<open>\<open>s.split(sep)\<close> for a one-character separator: always at least one piece.\<close>

fun split_on :: "char \<Rightarrow> string \<Rightarrow> string list" where
  "split_on sep [] = [[]]"
| "split_on sep (c # cs) =
     (if c = sep then [] # split_on sep cs
      else (case split_on sep cs of [] \<Rightarrow> [[c]] | w # ws \<Rightarrow> (c # w) # ws))"

text \<open>\<open>sep.join(pieces)\<close>.\<close>

fun join :: "string \<Rightarrow> string list \<Rightarrow> string" where
  "join sep [] = []"
| "join sep [x] = x"
| "join sep (x # y # ys) = x @ sep @ join sep (y # ys)"

text \<open>\<open>xs[-k]\<close> for \<open>k > 0\<close>: raises \<open>IndexError\<close> when the sequence is shorter than \<open>k\<close>.\<close>

definition neg_index :: "'a list \<Rightarrow> nat \<Rightarrow> py_error + 'a" where
  "neg_index xs k =
     (if 0 < k \<and> k \<le> length xs then Inr (xs ! (length xs - k)) else Inl IndexError)"

section \<open>The catalogue entity\<close>

datatype category = Anime | Scans | Film | Autres

text \<open>
  Modelled from the spec: the type \<open>Lang\<close> is declared in \<open>langs.py\<close>; the spec only
  says that an entity carries a set of language tags, so a tag is a string.
\<close>

type_synonym lang = string

text \<open>
  The attributes of \<open>Catalogue\<close>. \<open>raw_name\<close>, \<open>cached_page\<close> and
  \<open>cached_name_with_year\<close> are the attributes \<open>_raw_name\<close>, \<open>_page\<close> and
  \<open>_name_with_year\<close>; the two caches hold \<open>None\<close> until they are filled. The
  \<open>client\<close> attribute is the handle through which pages are fetched; its answers are
  the oracle given to \<open>page\<close> below.
\<close>

record catalogue =
  url :: string
  site_url :: string
  name :: string
  raw_name :: string
  cached_page :: "string option"
  cached_name_with_year :: "string option"
  alternative_names :: "string list"
  genres :: "string list"
  categories :: "category set"
  languages :: "lang set"
  image_url :: string

text \<open>
  \<open>Catalogue.__init__\<close>. An argument that defaults to \<open>None\<close> is an option. Two
  expressions can raise \<open>IndexError\<close>: \<open>url[-1]\<close> on the empty string, and
  \<open>url.split("/")[-2]\<close>, evaluated only when \<open>name\<close> is empty, on a URL without
  separator.
\<close>

definition init ::
  "string \<Rightarrow> string \<Rightarrow> string list option \<Rightarrow> string list option \<Rightarrow>
   category set option \<Rightarrow> lang set option \<Rightarrow> string \<Rightarrow> py_error + catalogue" where
  "init url_arg name_arg alternative_names_arg genres_arg categories_arg languages_arg
        image_url_arg =
     (let alts = (case alternative_names_arg of None \<Rightarrow> [] | Some xs \<Rightarrow> xs);
          gs = (case genres_arg of None \<Rightarrow> [] | Some xs \<Rightarrow> xs);
          cs = (case categories_arg of None \<Rightarrow> {} | Some S \<Rightarrow> S);
          ls = (case languages_arg of None \<Rightarrow> {} | Some S \<Rightarrow> S)
      in if url_arg = [] then Inl IndexError
         else
           (case (if name_arg \<noteq> [] then Inr name_arg
                  else neg_index (split_on CHR ''/'' url_arg) 2) of
              Inl e \<Rightarrow> Inl e
            | Inr nm \<Rightarrow>
                Inr \<lparr> url = (if last url_arg \<noteq> CHR ''/'' then url_arg @ ''/'' else url_arg),
                      site_url = join ''/'' (take 3 (split_on CHR ''/'' url_arg)) @ ''/'',
                      name = (if alts \<noteq> [] then hd alts else nm),
                      raw_name = nm,
                      cached_page = None,
                      cached_name_with_year = None,
                      alternative_names = alts,
                      genres = gs,
                      categories = cs,
                      languages = ls,
                      image_url = image_url_arg \<rparr>))"

text \<open>\<open>Catalogue.__eq__\<close>: the other operand is any Python value.\<close>

datatype py_value = PyCatalogue catalogue | PyOther

definition catalogue_eq :: "catalogue \<Rightarrow> py_value \<Rightarrow> bool" where
  "catalogue_eq self v = (case v of PyOther \<Rightarrow> False | PyCatalogue other \<Rightarrow> url self = url other)"

section \<open>The network\<close>

text \<open>
  The network is outside the program. Each call is answered by an oracle that is given
  the number of calls made so far and the URL asked for, so the same URL may be answered
  differently at different times. The calls are recorded in a log: \<open>gets\<close> holds the
  URLs fetched by \<open>client.get\<close>, \<open>queries\<close> the URLs asked of the metadata API by
  \<open>session.get\<close>.
\<close>

record world =
  gets :: "string list"
  queries :: "string list"

text \<open>
  What \<open>await self.client.get(url)\<close> does: it returns a response, of which the code
  reads \<open>is_success\<close> and \<open>text\<close>, or it raises (a transport error).
\<close>

datatype http_outcome = HttpResponse bool string | HttpRaises

text \<open>
  One entry of the metadata payload, as \<open>get_name_with_year\<close> reads it:
  \<open>anime.get("title", "")\<close>, \<open>anime.get("title_english", "")\<close>,
  \<open>anime.get("title_japanese", "")\<close>, \<open>anime.get("year")\<close> and
  \<open>anime.get("aired", {}).get("from")\<close>. The default title is a string (empty when
  the key is absent); the other fields are \<open>None\<close> when the payload holds \<open>null\<close>
  or lacks the key.
\<close>

record anime =
  title :: string
  title_english :: "string option"
  title_japanese :: "string option"
  year :: "int option"
  aired_from :: "string option"

text \<open>
  What one pass through the body of the \<open>try\<close> meets: an exception (raised by the
  transport or while decoding the payload), or a response with its status and the list
  \<open>data.get("data", [])\<close> of its payload, read only when the status is 200.
\<close>

datatype api_outcome = ApiRaises | ApiStatus nat "anime list"

section \<open>The page cache\<close>

text \<open>
  \<open>Catalogue.page\<close>. The cache is returned when it is filled. Otherwise one GET is
  sent to \<open>self.url\<close>; a response fills the cache, with the empty string when it is
  not a success. Nothing catches an exception of the GET: it leaves the method before
  the cache is written.
\<close>

definition page ::
  "(nat \<Rightarrow> string \<Rightarrow> http_outcome) \<Rightarrow> catalogue \<Rightarrow> world \<Rightarrow>
   (py_error + string) \<times> catalogue \<times> world" where
  "page http self w =
     (case cached_page self of
        Some p \<Rightarrow> (Inr p, self, w)
      | None \<Rightarrow>
          (let w' = w\<lparr>gets := gets w @ [url self]\<rparr>
           in case http (length (gets w)) (url self) of
                HttpRaises \<Rightarrow> (Inl NetworkError, self, w')
              | HttpResponse is_success text \<Rightarrow>
                  (let p = (if \<not> is_success then [] else text)
                   in (Inr p, self\<lparr>cached_page := Some p\<rparr>, w'))))"

section \<open>The text normalizer and the title matcher\<close>

text \<open>
  The character classes of Python on the code points below 256: \<open>str.isspace\<close> (which
  is also the regex class \<open>\s\<close> and what \<open>str.strip\<close> removes), the alphanumeric
  characters (letters, digits and the other numeric characters), the regex class
  \<open>\w\<close> (alphanumeric or underscore), and \<open>str.lower\<close>.
\<close>

definition is_space :: "char \<Rightarrow> bool" where
  "is_space c =
     (let n = (of_char c :: nat)
      in (9 \<le> n \<and> n \<le> 13) \<or> (28 \<le> n \<and> n \<le> 32) \<or> n = 133 \<or> n = 160)"

definition is_alnum :: "char \<Rightarrow> bool" where
  "is_alnum c =
     (let n = (of_char c :: nat)
      in (48 \<le> n \<and> n \<le> 57) \<or> (65 \<le> n \<and> n \<le> 90) \<or> (97 \<le> n \<and> n \<le> 122) \<or>
         n = 170 \<or> (178 \<le> n \<and> n \<le> 179) \<or> n = 181 \<or> (185 \<le> n \<and> n \<le> 186) \<or>
         (188 \<le> n \<and> n \<le> 190) \<or> (192 \<le> n \<and> n \<le> 214) \<or> (216 \<le> n \<and> n \<le> 246) \<or>
         (248 \<le> n \<and> n \<le> 255))"

definition is_word :: "char \<Rightarrow> bool" where
  "is_word c = (is_alnum c \<or> c = CHR ''_'')"

definition lower_char :: "char \<Rightarrow> char" where
  "lower_char c =
     (let n = (of_char c :: nat)
      in if (65 \<le> n \<and> n \<le> 90) \<or> (192 \<le> n \<and> n \<le> 214) \<or> (216 \<le> n \<and> n \<le> 222)
         then char_of (n + 32) else c)"


definition str_lower :: "string \<Rightarrow> string" where
  "str_lower s = map lower_char s"

definition str_strip :: "string \<Rightarrow> string" where
  "str_strip s = rev (dropWhile is_space (rev (dropWhile is_space s)))"

text \<open>
  The inner function \<open>normalize_title\<close> of \<open>_titles_match\<close>:
  \<open>re.sub(r'[^\w\s]', '', title.lower().strip())\<close> deletes every character that is
  in neither class.
\<close>

definition normalize_title :: "string \<Rightarrow> string" where
  "normalize_title s = filter (\<lambda>c. is_word c \<or> is_space c) (str_strip (str_lower s))"

text \<open>\<open>a in b\<close> on strings: \<open>a\<close> occurs in \<open>b\<close> as a contiguous piece.\<close>

fun starts_with :: "string \<Rightarrow> string \<Rightarrow> bool" where
  "starts_with [] s = True"
| "starts_with (p # ps) [] = False"
| "starts_with (p # ps) (c # cs) = (p = c \<and> starts_with ps cs)"

fun str_in :: "string \<Rightarrow> string \<Rightarrow> bool" where
  "str_in a [] = (a = [])"
| "str_in a (c # cs) = (starts_with a (c # cs) \<or> str_in a cs)"

text \<open>
  \<open>Catalogue._titles_match\<close>. \<open>not api_title\<close> holds for \<open>None\<close> and for the empty
  string.
\<close>

definition titles_match :: "string \<Rightarrow> string option \<Rightarrow> bool" where
  "titles_match search_title api_title =
     (case api_title of
        None \<Rightarrow> False
      | Some t \<Rightarrow>
          if t = [] then False
          else (let normalized_search = normalize_title search_title;
                    normalized_api = normalize_title t
                in normalized_search = normalized_api \<or>
                   str_in normalized_search normalized_api \<or>
                   str_in normalized_api normalized_search))"

section \<open>The metadata resolver\<close>

text \<open>The decimal text of an integer, as an f-string prints it.\<close>

fun str_nat :: "nat \<Rightarrow> string" where
  "str_nat n =
     (if n < 10 then [''0123456789'' ! n]
      else str_nat (n div 10) @ [''0123456789'' ! (n mod 10)])"

definition str_int :: "int \<Rightarrow> string" where
  "str_int i = (if i < 0 then CHR ''-'' # str_nat (nat (- i)) else str_nat (nat i))"

text \<open>
  The value of \<open>year\<close> in \<open>get_name_with_year\<close>:
  \<open>anime.get("year") or (aired_from[:4] if aired_from else "")\<close>. It is the year field
  when that is truthy (an integer other than 0), and otherwise a string: the first four
  characters of the start date when that is truthy (a non-empty string), else the empty
  string.
\<close>

datatype year_value = YearInt int | YearStr string

definition aired_year :: "anime \<Rightarrow> string" where
  "aired_year a =
     (case aired_from a of None \<Rightarrow> [] | Some s \<Rightarrow> if s \<noteq> [] then take 4 s else [])"

definition year_of :: "anime \<Rightarrow> year_value" where
  "year_of a =
     (case year a of
        None \<Rightarrow> YearStr (aired_year a)
      | Some y \<Rightarrow> if y \<noteq> 0 then YearInt y else YearStr (aired_year a))"

fun truthy :: "year_value \<Rightarrow> bool" where
  "truthy (YearInt y) = (y \<noteq> 0)"
| "truthy (YearStr s) = (s \<noteq> [])"

fun year_text :: "year_value \<Rightarrow> string" where
  "year_text (YearInt y) = str_int y"
| "year_text (YearStr s) = s"

definition compose_name :: "anime \<Rightarrow> string" where
  "compose_name a =
     (let y = year_of a
      in if truthy y then title a @ '' ('' @ year_text y @ '')'' else title a)"

definition record_matches :: "string \<Rightarrow> anime \<Rightarrow> bool" where
  "record_matches name_to_search a =
     (titles_match name_to_search (Some (title a)) \<or>
      titles_match name_to_search (title_english a) \<or>
      titles_match name_to_search (title_japanese a))"

text \<open>The loop \<open>for anime in animes\<close>: the first record that matches ends it.\<close>

fun try_records :: "string \<Rightarrow> anime list \<Rightarrow> string option" where
  "try_records name_to_search [] = None"
| "try_records name_to_search (a # animes) =
     (if record_matches name_to_search a then Some (compose_name a)
      else try_records name_to_search animes)"

definition query_url :: "string \<Rightarrow> string" where
  "query_url name_to_search =
     ''https://api.jikan.moe/v4/anime?q='' @
     map (\<lambda>c. if c = CHR '' '' then CHR ''+'' else c) name_to_search @ ''&limit=3''"

definition names_to_try :: "catalogue \<Rightarrow> string list" where
  "names_to_try self = [name self] @ alternative_names self"

text \<open>
  The loop \<open>for name_to_search in names_to_try\<close>: one query for each name, in order,
  until a record matches. An exception, a status other than 200 and a payload without
  matching record all lead to the next name.
\<close>

fun try_names ::
  "(nat \<Rightarrow> string \<Rightarrow> api_outcome) \<Rightarrow> string list \<Rightarrow> world \<Rightarrow> string option \<times> world" where
  "try_names api [] w = (None, w)"
| "try_names api (n # ns) w =
     (let w' = w\<lparr>queries := queries w @ [query_url n]\<rparr>
      in case api (length (queries w)) (query_url n) of
           ApiRaises \<Rightarrow> try_names api ns w'
         | ApiStatus status animes \<Rightarrow>
             if status = 200
             then (case try_records n animes of
                     Some found \<Rightarrow> (Some found, w')
                   | None \<Rightarrow> try_names api ns w')
             else try_names api ns w')"

text \<open>
  \<open>Catalogue.get_name_with_year\<close>: the cache when it is filled, else the result of the
  loop, else \<open>self.name\<close>; whatever is returned is written to the cache.
\<close>

definition get_name_with_year ::
  "(nat \<Rightarrow> string \<Rightarrow> api_outcome) \<Rightarrow> catalogue \<Rightarrow> world \<Rightarrow> string \<times> catalogue \<times> world" where
  "get_name_with_year api self w =
     (case cached_name_with_year self of
        Some cached \<Rightarrow> (cached, self, w)
      | None \<Rightarrow>
          (case try_names api (names_to_try self) w of
             (Some found, w') \<Rightarrow> (found, self\<lparr>cached_name_with_year := Some found\<rparr>, w')
           | (None, w') \<Rightarrow> (name self, self\<lparr>cached_name_with_year := Some (name self)\<rparr>, w')))"

text \<open>
  What the claims about the resolver speak of. A query \<^emph>\<open>yields a match\<close> for a name when
  it is answered with status 200 and a payload in which some record matches the name.
  \<open>no_candidate_matches api k names\<close> says that none of the queries for \<open>names\<close>,
  sent in order with the first of them being call number \<open>k\<close>, yields a match.
\<close>

fun yields_match :: "string \<Rightarrow> api_outcome \<Rightarrow> bool" where
  "yields_match n ApiRaises = False"
| "yields_match n (ApiStatus status animes) =
     (status = 200 \<and> list_ex (record_matches n) animes)"

fun no_candidate_matches :: "(nat \<Rightarrow> string \<Rightarrow> api_outcome) \<Rightarrow> nat \<Rightarrow> string list \<Rightarrow> bool" where
  "no_candidate_matches api k [] = True"
| "no_candidate_matches api k (n # ns) =
     (\<not> yields_match n (api k (query_url n)) \<and> no_candidate_matches api (Suc k) ns)"


section \<open>Season discovery\<close>

text \<open>
  \<open>seasons\<close> searches the page with
  \<^verbatim>\<open>re.findall(r'panneauAnime\("(.+?)", *"(.+?)(?:vostfr|vf)"\);', page)\<close>.
  The matcher below follows the backtracking search of this one pattern. A lazy group
  \<open>(.+?)\<close> takes one character, never a newline, and tries the rest of the pattern;
  when the rest fails it takes one character more. \<open>strip_prefix\<close> matches the literal
  pieces; each function returns what it captured and the text left after the match.
\<close>

abbreviation dquote :: char where "dquote \<equiv> CHR 0x22"
abbreviation newline :: char where "newline \<equiv> CHR 0x0A"

text \<open>A literal piece of the pattern: the text after it, when the text starts with it.\<close>

fun strip_prefix :: "string \<Rightarrow> string \<Rightarrow> string option" where
  "strip_prefix [] s = Some s"
| "strip_prefix (p # ps) [] = None"
| "strip_prefix (p # ps) (c # cs) = (if p = c then strip_prefix ps cs else None)"

text \<open>The end of the pattern, \<^verbatim>\<open>(?:vostfr|vf)"\);\<close>: the first alternative is tried first.\<close>

definition end_marker :: "string \<Rightarrow> string option" where
  "end_marker s =
     (case strip_prefix (''vostfr'' @ [dquote] @ '');'') s of
        Some rest \<Rightarrow> Some rest
      | None \<Rightarrow> strip_prefix (''vf'' @ [dquote] @ '');'') s)"

text \<open>The second group and the end of the pattern; \<open>acc\<close> is what the group holds so far.\<close>

fun match_link :: "string \<Rightarrow> string \<Rightarrow> (string \<times> string) option" where
  "match_link acc [] = None"
| "match_link acc (c # cs) =
     (if c = newline then None
      else (case end_marker cs of
              Some rest \<Rightarrow> Some (acc @ [c], rest)
            | None \<Rightarrow> match_link (acc @ [c]) cs))"

text \<open>
  The pattern from the quote that closes the name: \<^verbatim>\<open>", *"\<close>, then the link. The
  greedy \<open> *\<close> takes every space; giving one back would ask for a quote where a space
  is, so only this one split is tried.
\<close>

definition match_tail :: "string \<Rightarrow> (string \<times> string) option" where
  "match_tail s =
     (case strip_prefix [dquote, CHR '',''] s of
        None \<Rightarrow> None
      | Some r \<Rightarrow>
          (case strip_prefix [dquote] (dropWhile (\<lambda>c. c = CHR '' '') r) of
             None \<Rightarrow> None
           | Some r' \<Rightarrow> match_link [] r'))"

text \<open>The first group and all that follows it.\<close>

fun match_name :: "string \<Rightarrow> string \<Rightarrow> (string \<times> string \<times> string) option" where
  "match_name acc [] = None"
| "match_name acc (c # cs) =
     (if c = newline then None
      else (case match_tail cs of
              Some (link, rest) \<Rightarrow> Some (acc @ [c], link, rest)
            | None \<Rightarrow> match_name (acc @ [c]) cs))"

text \<open>A match that starts at the beginning of the text.\<close>

definition match_at :: "string \<Rightarrow> (string \<times> string \<times> string) option" where
  "match_at s =
     (case strip_prefix (''panneauAnime('' @ [dquote]) s of
        None \<Rightarrow> None
      | Some r \<Rightarrow> match_name [] r)"

text \<open>A match is never empty, so the search below goes on in a shorter text.\<close>

lemma strip_prefix_Some: "strip_prefix p s = Some r \<longleftrightarrow> s = p @ r"
  by (induction p s rule: strip_prefix.induct) auto

lemma end_marker_length: "end_marker s = Some r \<Longrightarrow> length r < length s"
  by (auto simp: end_marker_def strip_prefix_Some split: option.splits)

lemma match_link_length: "match_link acc s = Some (l, r) \<Longrightarrow> length r < length s"
  by (induction acc s rule: match_link.induct)
     (auto split: if_splits option.splits dest: end_marker_length)

lemma match_tail_length: "match_tail s = Some (l, r) \<Longrightarrow> length r < length s"
proof -
  assume a: "match_tail s = Some (l, r)"
  then obtain r1 r2 where 1: "s = [dquote, CHR '',''] @ r1"
    and 2: "dropWhile (\<lambda>c. c = CHR '' '') r1 = [dquote] @ r2"
    and 3: "match_link [] r2 = Some (l, r)"
    by (auto simp: match_tail_def strip_prefix_Some split: option.splits)
  have "length r < length r2" using 3 by (rule match_link_length)
  also have "length r2 < length (dropWhile (\<lambda>c. c = CHR '' '') r1)" using 2 by simp
  also have "\<dots> \<le> length r1" by (rule length_dropWhile_le)
  also have "\<dots> < length s" using 1 by simp
  finally show ?thesis .
qed

lemma match_name_length: "match_name acc s = Some (n, l, r) \<Longrightarrow> length r < length s"
proof (induction s arbitrary: acc)
  case Nil
  then show ?case by simp
next
  case (Cons c cs)
  show ?case
  proof (cases "match_tail cs")
    case None
    with Cons.prems have "match_name (acc @ [c]) cs = Some (n, l, r)"
      by (simp split: if_splits)
    then have "length r < length cs" by (rule Cons.IH)
    then show ?thesis by simp
  next
    case (Some lr)
    obtain l' r' where lr: "lr = (l', r')" by (cases lr)
    with Some Cons.prems have "r' = r" by (simp split: if_splits)
    moreover have "length r' < length cs" using Some lr by (auto dest: match_tail_length)
    ultimately show ?thesis by simp
  qed
qed

lemma match_at_length: "match_at s = Some (n, l, r) \<Longrightarrow> length r < length s"
  by (auto simp: match_at_def strip_prefix_Some split: option.splits dest: match_name_length)

text \<open>
  \<open>re.findall\<close>: the matches from left to right, each search starting where the last
  match ended, and one character further when there is no match at a position.
\<close>

function findall_panneau :: "string \<Rightarrow> (string \<times> string) list" where
  "findall_panneau [] = []"
| "findall_panneau (c # cs) =
     (case match_at (c # cs) of
        Some (nm, link, rest) \<Rightarrow> (nm, link) # findall_panneau rest
      | None \<Rightarrow> findall_panneau cs)"
  by pat_completeness auto
termination
  by (relation "measure length") (auto dest: match_at_length)


text \<open>
  Modelled from the spec: the class \<open>Season\<close> is declared in \<open>season.py\<close>; the spec
  says that a season owns a URL, a name and the disambiguated series name.
\<close>

record season =
  season_url :: string
  season_name :: string
  serie_name :: string

text \<open>
  \<open>Catalogue.seasons\<close>. \<open>remove_some_js_comments\<close> is declared in \<open>utils.py\<close>; it
  is a parameter here (a pure function from text to text).
\<close>

definition seasons ::
  "(string \<Rightarrow> string) \<Rightarrow> (nat \<Rightarrow> string \<Rightarrow> http_outcome) \<Rightarrow> (nat \<Rightarrow> string \<Rightarrow> api_outcome) \<Rightarrow>
   catalogue \<Rightarrow> world \<Rightarrow> (py_error + season list) \<times> catalogue \<times> world" where
  "seasons remove_some_js_comments http api self w =
     (case page http self w of
        (Inl e, self1, w1) \<Rightarrow> (Inl e, self1, w1)
      | (Inr p, self1, w1) \<Rightarrow>
          (let page_without_comments = remove_some_js_comments p;
               found = findall_panneau page_without_comments
           in case get_name_with_year api self1 w1 of
                (full, self2, w2) \<Rightarrow>
                  (Inr (map (\<lambda>(nm, link).
                          \<lparr>season_url = url self @ link, season_name = nm, serie_name = full\<rparr>)
                        found),
                   self2, w2)))"

section \<open>Season declarations, in the words of the specification\<close>

text \<open>
  The specification speaks of a page body that contains season declarations of the
  shape \<^verbatim>\<open>panneauAnime("<name>", "<link-suffix><lang-marker>");\<close>, the marker being
  one of the two tokens \<open>vostfr\<close> and \<open>vf\<close>. These definitions follow those words: a
  declaration holds its name, the number of spaces after the comma, its link suffix and
  its marker; \<open>render_decl\<close> is its text, and \<open>render_body\<close> is the text of a page
  made of declarations, with a piece of text before the first one and after each.
\<close>

datatype lang_marker = Vostfr | Vf

fun marker_text :: "lang_marker \<Rightarrow> string" where
  "marker_text Vostfr = ''vostfr''"
| "marker_text Vf = ''vf''"

record season_decl =
  decl_name :: string
  decl_spaces :: nat
  decl_link :: string
  decl_marker :: lang_marker

definition opening_text :: string where
  "opening_text = ''panneauAnime('' @ [dquote]"

definition render_decl :: "season_decl \<Rightarrow> string" where
  "render_decl d =
     opening_text @ decl_name d @ [dquote, CHR '',''] @ replicate (decl_spaces d) CHR '' '' @
     [dquote] @ decl_link d @ marker_text (decl_marker d) @ [dquote] @ '');''"

text \<open>
  A name or a link suffix is plain when it is not empty and holds neither a double quote
  nor a line break; a declaration is well formed when both are plain.
\<close>

definition plain_text :: "string \<Rightarrow> bool" where
  "plain_text s = (s \<noteq> [] \<and> dquote \<notin> set s \<and> newline \<notin> set s)"

definition well_formed :: "season_decl \<Rightarrow> bool" where
  "well_formed d = (plain_text (decl_name d) \<and> plain_text (decl_link d))"

fun render_body :: "string \<Rightarrow> (season_decl \<times> string) list \<Rightarrow> string" where
  "render_body sep0 [] = sep0"
| "render_body sep0 ((d, sep) # items) = sep0 @ render_decl d @ render_body sep items"

section \<open>Example values\<close>

text \<open>
  An entity as the constructor builds it from the URL of a catalogue page, and the world
  before any network call. The witnesses below run the methods on them.
\<close>

definition example_entity :: catalogue where
  "example_entity =
     \<lparr>url = ''https://anime-sama.fr/catalogue/naruto/'',
      site_url = ''https://anime-sama.fr/'',
      name = ''naruto'', raw_name = ''naruto'',
      cached_page = None, cached_name_with_year = None,
      alternative_names = [], genres = [], categories = {}, languages = {},
      image_url = []\<rparr>"

definition fresh_world :: world where
  "fresh_world = \<lparr>gets = [], queries = []\<rparr>"

text \<open>
  A page with two declarations on lines of their own, as the site writes them, and a
  page on which a declaration without link suffix is followed, on the same line, by a
  declaration with one.
\<close>

definition example_page :: string where
  "example_page =
     ''<script>'' @ [newline] @
     ''panneauAnime('' @ [dquote] @ ''Saison 1'' @ [dquote] @ '', '' @ [dquote] @
       ''saison1/vostfr'' @ [dquote] @ '');'' @ [newline] @
     ''panneauAnime('' @ [dquote] @ ''Film'' @ [dquote] @ '','' @ [dquote] @
       ''film/vf'' @ [dquote] @ '');'' @ [newline] @ ''</script>''"

definition example_decls :: "(season_decl \<times> string) list" where
  "example_decls =
     [(\<lparr>decl_name = ''Saison 1'', decl_spaces = 1, decl_link = ''saison1/'',
        decl_marker = Vostfr\<rparr>, [newline]),
      (\<lparr>decl_name = ''Film'', decl_spaces = 0, decl_link = ''film/'',
        decl_marker = Vf\<rparr>, [newline] @ ''</script>'')]"

definition example_page_without_suffix :: string where
  "example_page_without_suffix =
     ''panneauAnime('' @ [dquote] @ ''Film'' @ [dquote] @ '', '' @ [dquote] @
       ''vostfr'' @ [dquote] @ '');'' @
     ''panneauAnime('' @ [dquote] @ ''Saison 1'' @ [dquote] @ '', '' @ [dquote] @
       ''saison1/vostfr'' @ [dquote] @ '');''"

section \<open>The slug of a URL, in the words of the specification\<close>

text \<open>
  The specification derives the display name from the slug of the URL: its last path
  segment, whether or not the URL ends with a separator. This definition follows those
  words; it is compared with what the constructor computes.
\<close>

definition spec_slug :: "string \<Rightarrow> string" where
  "spec_slug u = last (split_on CHR ''/'' (if u \<noteq> [] \<and> last u = CHR ''/'' then butlast u else u))"

section \<open>The year of a record, in the words of the specification\<close>

text \<open>
  The specification derives the year of a record in three steps: the year field, else
  the first four characters of the start date, else no year. These definitions follow
  those words, with the year field counted as given when it holds a number other than 0
  and the start date when it holds a non-empty string; they are compared with what
  \<open>compose_name\<close> computes.
\<close>

definition start_year :: "anime \<Rightarrow> string option" where
  "start_year a =
     (case aired_from a of None \<Rightarrow> None | Some s \<Rightarrow> if s \<noteq> [] then Some (take 4 s) else None)"

definition derived_year :: "anime \<Rightarrow> string option" where
  "derived_year a =
     (case year a of
        None \<Rightarrow> start_year a
      | Some y \<Rightarrow> if y \<noteq> 0 then Some (str_int y) else start_year a)"

section \<open>Identity\<close>

text \<open>
  Claim C8. Two entities compare equal exactly when their canonical URLs are equal. The
  name, the raw name, the alternate names, the two caches and every other attribute play
  no role: replacing them on either side leaves the comparison unchanged.
\<close>

theorem catalogue_eq_iff_url:
  "(catalogue_eq c (PyCatalogue d) \<longleftrightarrow> url c = url d) \<and>
   catalogue_eq
     (c\<lparr>site_url := s1, name := n1, raw_name := r1, cached_page := p1,
        cached_name_with_year := y1, alternative_names := a1, genres := g1,
        categories := k1, languages := l1, image_url := i1\<rparr>)
     (PyCatalogue
       (d\<lparr>site_url := s2, name := n2, raw_name := r2, cached_page := p2,
          cached_name_with_year := y2, alternative_names := a2, genres := g2,
          categories := k2, languages := l2, image_url := i2\<rparr>))
     = catalogue_eq c (PyCatalogue d)"
  by (simp add: catalogue_eq_def)

section \<open>Construction\<close>

text \<open>The number of pieces of a split is one more than the number of separators.\<close>

lemma split_on_nonempty: "split_on sep s \<noteq> []"
  by (induction s) (auto split: list.splits)

lemma length_split_on: "length (split_on sep s) = Suc (length (filter (\<lambda>c. c = sep) s))"
proof (induction s)
  case Nil
  then show ?case by simp
next
  case (Cons c cs)
  then show ?case
    using split_on_nonempty [of sep cs] by (auto split: list.splits)
qed

lemma two_pieces_iff: "2 \<le> length (split_on sep s) \<longleftrightarrow> sep \<in> set s"
proof -
  have "filter (\<lambda>c. c = sep) s \<noteq> [] \<longleftrightarrow> sep \<in> set s"
    by (auto simp: filter_empty_conv)
  then show ?thesis
    by (cases "filter (\<lambda>c. c = sep) s") (simp_all add: length_split_on)
qed

text \<open>
  Claim C9, as amended. Constructing an entity with the empty string as URL fails. The
  constructor succeeds exactly when the URL is not empty and, in addition, either a
  non-empty name is given or the URL contains a separator (with an empty name the
  display name is read from the piece before the last separator). Every constructed
  entity's canonical URL ends with the separator.
\<close>

theorem init_succeeds_iff:
  "((\<exists>c. init u n a g k l i = Inr c) \<longleftrightarrow> u \<noteq> [] \<and> (n \<noteq> [] \<or> CHR ''/'' \<in> set u)) \<and>
   (\<forall>c. init u n a g k l i = Inr c \<longrightarrow> url c \<noteq> [] \<and> last (url c) = CHR ''/'')"
proof (intro conjI)
  show "(\<exists>c. init u n a g k l i = Inr c) \<longleftrightarrow> u \<noteq> [] \<and> (n \<noteq> [] \<or> CHR ''/'' \<in> set u)"
    using two_pieces_iff [of "CHR ''/''" u]
    by (auto simp: init_def neg_index_def Let_def split: sum.splits if_splits)
next
  show "\<forall>c. init u n a g k l i = Inr c \<longrightarrow> url c \<noteq> [] \<and> last (url c) = CHR ''/''"
    by (auto simp: init_def Let_def split: sum.splits if_splits)
qed

theorem init_succeeds_witness:
  "(\<exists>c. init ''https://anime-sama.fr/catalogue/naruto'' [] None None None None [] = Inr c \<and>
        last (url c) = CHR ''/'') \<and>
   init [] ''Naruto'' None None None None [] = Inl IndexError"
proof -
  have "\<exists>c. init ''https://anime-sama.fr/catalogue/naruto'' [] None None None None [] = Inr c"
    using init_succeeds_iff [of "''https://anime-sama.fr/catalogue/naruto''" "[]" None None None None "[]"]
    by simp
  moreover have "init [] ''Naruto'' None None None None [] = Inl IndexError"
    using init_succeeds_iff [of "[]" "''Naruto''" None None None None "[]"]
    by (cases "init [] ''Naruto'' None None None None []") (auto simp: init_def)
  ultimately show ?thesis
    using init_succeeds_iff [of "''https://anime-sama.fr/catalogue/naruto''" "[]" None None None None "[]"]
    by auto
qed

text \<open>
  Claim C9 as stated fails: the URL \<open>abc\<close> is not empty, yet with the default empty
  name the constructor raises \<open>IndexError\<close>, at \<open>url.split("/")[-2]\<close>.
\<close>

theorem init_nonempty_url_counterexample:
  "''abc'' \<noteq> [] \<and> init ''abc'' [] None None None None [] = Inl IndexError"
  by code_simp

section \<open>The display name\<close>

text \<open>
  Claim C7. The claim says that, with an empty name and no alternate names, the display
  name is the slug of the constructor URL whether or not the URL ends with a separator.
  The constructor reads the name from the argument \<open>url\<close>, not from the normalised
  \<open>self.url\<close>: for a URL without trailing separator it takes the piece before the
  slug. Here the slug is \<open>naruto\<close> and the display name (and the raw name) is
  \<open>catalogue\<close>.
\<close>

theorem init_name_without_trailing_separator:
  "spec_slug ''https://anime-sama.fr/catalogue/naruto'' = ''naruto'' \<and>
   (case init ''https://anime-sama.fr/catalogue/naruto'' [] None None None None [] of
      Inl e \<Rightarrow> False
    | Inr c \<Rightarrow> name c = ''catalogue'' \<and> raw_name c = ''catalogue'' \<and>
              url c = ''https://anime-sama.fr/catalogue/naruto/'')"
  by code_simp

section \<open>Title matching\<close>

text \<open>The substring test of the model is the contiguous-sublist relation of the library.\<close>

lemma starts_with_prefix: "starts_with a s \<longleftrightarrow> prefix a s"
  by (induction a s rule: starts_with.induct) auto

lemma str_in_sublist: "str_in a s \<longleftrightarrow> sublist a s"
  by (induction s) (auto simp: starts_with_prefix sublist_Cons_right)

text \<open>
  Claim C4, as amended. For a non-empty record title, the matcher declares a match
  exactly when the normalised titles are equal or one occurs in the other as a
  contiguous piece. An empty or absent record title never matches.
\<close>

theorem titles_match_iff:
  "(titles_match s (Some a) \<longleftrightarrow>
      a \<noteq> [] \<and>
      (normalize_title s = normalize_title a \<or>
       sublist (normalize_title s) (normalize_title a) \<or>
       sublist (normalize_title a) (normalize_title s))) \<and>
   \<not> titles_match s None"
  by (simp add: titles_match_def Let_def str_in_sublist)

theorem titles_match_witness:
  "titles_match ''Naruto'' (Some ''NARUTO: Shippuden'') \<and> \<not> titles_match ''Naruto'' (Some [])"
proof -
  have "normalize_title ''Naruto'' = ''naruto''" by code_simp
  moreover have "normalize_title ''NARUTO: Shippuden'' = ''naruto shippuden''" by code_simp
  moreover have "sublist ''naruto'' ''naruto shippuden''" by code_simp
  ultimately show ?thesis
    using titles_match_iff [of "''Naruto''" "''NARUTO: Shippuden''"]
      titles_match_iff [of "''Naruto''" "[]"]
    by simp
qed

text \<open>
  Claim C4 as stated fails for the empty record title: its normalised form, the empty
  string, occurs in every normalised search title, yet the guard \<open>if not api_title\<close>
  answers that there is no match.
\<close>

theorem titles_match_empty_counterexample:
  "\<not> (titles_match ''abc'' (Some []) \<longleftrightarrow>
        (normalize_title ''abc'' = normalize_title [] \<or>
         sublist (normalize_title ''abc'') (normalize_title []) \<or>
         sublist (normalize_title []) (normalize_title ''abc'')))"
proof -
  have "\<not> titles_match ''abc'' (Some [])" by code_simp
  moreover have "normalize_title [] = []" by code_simp
  ultimately show ?thesis by simp
qed

section \<open>The normalizer\<close>










section \<open>The page cache, fetched once\<close>

text \<open>The example entity is what the constructor returns for its URL.\<close>

lemma example_entity_init:
  "init ''https://anime-sama.fr/catalogue/naruto/'' [] None None None None [] = Inr example_entity"
  by (simp add: init_def neg_index_def example_entity_def)

text \<open>
  Claim C1, as amended. The first call of \<open>page\<close> (the cache is empty) sends exactly
  one GET, to the entity's canonical URL. When the GET returns a response, the body, or
  the empty string for a response that is not a success, is cached and returned, and
  every later call returns that same string, changes nothing and reaches no network,
  whatever the network would answer. When the GET itself raises, the exception leaves
  \<open>page\<close> and nothing is cached.
\<close>

theorem page_fetch_once:
  "cached_page c = None \<Longrightarrow>
   (case http (length (gets w)) (url c) of
      HttpResponse ok body \<Rightarrow>
        page http c w =
          (Inr (if ok then body else []),
           c\<lparr>cached_page := Some (if ok then body else [])\<rparr>,
           w\<lparr>gets := gets w @ [url c]\<rparr>) \<and>
        (\<forall>http2 w2.
           page http2 (c\<lparr>cached_page := Some (if ok then body else [])\<rparr>) w2 =
             (Inr (if ok then body else []),
              c\<lparr>cached_page := Some (if ok then body else [])\<rparr>, w2))
    | HttpRaises \<Rightarrow>
        page http c w = (Inl NetworkError, c, w\<lparr>gets := gets w @ [url c]\<rparr>))"
  by (cases "http (length (gets w)) (url c)") (simp_all add: page_def Let_def)

theorem page_fetch_once_witness:
  "page (\<lambda>k u. HttpResponse False ''Not Found'') example_entity fresh_world =
     (Inr [], example_entity\<lparr>cached_page := Some []\<rparr>,
      \<lparr>gets = [''https://anime-sama.fr/catalogue/naruto/''], queries = []\<rparr>) \<and>
   page (\<lambda>k u. HttpResponse True ''fresh'') (example_entity\<lparr>cached_page := Some []\<rparr>)
        \<lparr>gets = [''https://anime-sama.fr/catalogue/naruto/''], queries = []\<rparr> =
     (Inr [], example_entity\<lparr>cached_page := Some []\<rparr>,
      \<lparr>gets = [''https://anime-sama.fr/catalogue/naruto/''], queries = []\<rparr>)"
proof -
  have none: "cached_page example_entity = None" by (simp add: example_entity_def)
  show ?thesis
    using page_fetch_once [OF none, of "\<lambda>k u. HttpResponse False ''Not Found''" fresh_world]
    by (simp add: fresh_world_def example_entity_def)
qed

text \<open>
  Claim C1 as stated fails when the GET raises: the first call caches nothing, so a
  second call sends a second GET. Two calls in sequence make two network calls.
\<close>

theorem page_refetch_counterexample:
  "fst (page (\<lambda>k u. HttpRaises) example_entity fresh_world) = Inl NetworkError \<and>
   gets (snd (snd (page (\<lambda>k u. HttpRaises)
           (fst (snd (page (\<lambda>k u. HttpRaises) example_entity fresh_world)))
           (snd (snd (page (\<lambda>k u. HttpRaises) example_entity fresh_world)))))) =
     [url example_entity, url example_entity]"
  by (simp add: page_def example_entity_def fresh_world_def)

section \<open>The metadata resolver: candidates, first match, fallback\<close>

text \<open>The loop over the records returns nothing exactly when no record matches.\<close>

lemma try_records_None: "try_records n animes = None \<longleftrightarrow> \<not> list_ex (record_matches n) animes"
  by (induction animes) auto

lemma try_records_first:
  "\<not> list_ex (record_matches n) before \<Longrightarrow> record_matches n a \<Longrightarrow>
   try_records n (before @ a # after) = Some (compose_name a)"
  by (induction before) auto

text \<open>
  When no query yields a match, the loop over the names sends one query for each name,
  in order, and returns nothing.
\<close>

lemma try_names_no_match:
  "no_candidate_matches api (length (queries w)) ns \<Longrightarrow>
   try_names api ns w = (None, w\<lparr>queries := queries w @ map query_url ns\<rparr>)"
proof (induction ns arbitrary: w)
  case Nil
  then show ?case by simp
next
  case (Cons n ns)
  let ?w' = "w\<lparr>queries := queries w @ [query_url n]\<rparr>"
  from Cons.prems have here: "\<not> yields_match n (api (length (queries w)) (query_url n))"
    and rest: "no_candidate_matches api (length (queries ?w')) ns" by simp_all
  have IH: "try_names api ns ?w' = (None, ?w'\<lparr>queries := queries ?w' @ map query_url ns\<rparr>)"
    using rest by (rule Cons.IH)
  show ?case
  proof (cases "api (length (queries w)) (query_url n)")
    case ApiRaises
    then show ?thesis using IH by (simp add: Let_def)
  next
    case (ApiStatus status animes)
    with here have "status \<noteq> 200 \<or> try_records n animes = None"
      by (simp add: try_records_None)
    then show ?thesis using ApiStatus IH by (auto simp: Let_def)
  qed
qed

text \<open>
  When the queries for the first names yield no match and the next one does, the loop
  stops there: the names after it are not queried.
\<close>

lemma try_names_first_match:
  "no_candidate_matches api (length (queries w)) pre \<Longrightarrow>
   api (length (queries w) + length pre) (query_url n) = ApiStatus 200 animes \<Longrightarrow>
   try_records n animes = Some found \<Longrightarrow>
   try_names api (pre @ n # post) w =
     (Some found, w\<lparr>queries := queries w @ map query_url (pre @ [n])\<rparr>)"
proof (induction pre arbitrary: w)
  case Nil
  then show ?case by (simp add: Let_def)
next
  case (Cons p pre)
  let ?w' = "w\<lparr>queries := queries w @ [query_url p]\<rparr>"
  from Cons.prems have here: "\<not> yields_match p (api (length (queries w)) (query_url p))"
    and rest: "no_candidate_matches api (length (queries ?w')) pre" by simp_all
  have "api (length (queries ?w') + length pre) (query_url n) = ApiStatus 200 animes"
    using Cons.prems(2) by simp
  with rest have IH: "try_names api (pre @ n # post) ?w' =
      (Some found, ?w'\<lparr>queries := queries ?w' @ map query_url (pre @ [n])\<rparr>)"
    using Cons.prems(3) by (rule Cons.IH)
  show ?case
  proof (cases "api (length (queries w)) (query_url p)")
    case ApiRaises
    then show ?thesis using IH by (simp add: Let_def)
  next
    case (ApiStatus status rs)
    with here have "status \<noteq> 200 \<or> try_records p rs = None"
      by (simp add: try_records_None)
    then show ?thesis using ApiStatus IH by (auto simp: Let_def)
  qed
qed

text \<open>
  Whatever the answers, the queries sent are those of the first names of the list, and
  there is at least one when the list is not empty.
\<close>

lemma try_names_log_segment:
  "\<exists>m \<le> length ns. (ns = [] \<or> 0 < m) \<and>
     queries (snd (try_names api ns w)) = queries w @ map query_url (take m ns)"
proof (induction ns arbitrary: w)
  case Nil
  then show ?case by simp
next
  case (Cons n ns)
  let ?w' = "w\<lparr>queries := queries w @ [query_url n]\<rparr>"
  obtain m where m: "m \<le> length ns"
    "queries (snd (try_names api ns ?w')) = queries ?w' @ map query_url (take m ns)"
    using Cons.IH [of ?w'] by blast
  have stop: "queries ?w' = queries w @ map query_url (take (Suc 0) (n # ns))" by simp
  have go: "queries (snd (try_names api ns ?w')) = queries w @ map query_url (take (Suc m) (n # ns))"
    using m(2) by simp
  have "queries (snd (try_names api (n # ns) w)) = queries ?w' \<or>
        queries (snd (try_names api (n # ns) w)) = queries (snd (try_names api ns ?w'))"
    by (simp add: Let_def split: api_outcome.splits option.splits)
  then show ?case
  proof
    assume "queries (snd (try_names api (n # ns) w)) = queries ?w'"
    with stop have "queries (snd (try_names api (n # ns) w)) = queries w @ map query_url (take (Suc 0) (n # ns))"
      by simp
    moreover have "Suc 0 \<le> length (n # ns)" "0 < Suc 0" by simp_all
    ultimately show ?thesis by blast
  next
    assume "queries (snd (try_names api (n # ns) w)) = queries (snd (try_names api ns ?w'))"
    with go have "queries (snd (try_names api (n # ns) w)) = queries w @ map query_url (take (Suc m) (n # ns))"
      by simp
    moreover have "Suc m \<le> length (n # ns)" "0 < Suc m" using m(1) by simp_all
    ultimately show ?thesis by blast
  qed
qed

text \<open>
  A name occurs among the first names of a list at most as often as in the whole list,
  and at most once in a list without repetition.
\<close>

lemma count_list_take_le: "count_list (take m xs) x \<le> count_list xs x"
proof (induction xs arbitrary: m)
  case Nil
  then show ?case by simp
next
  case (Cons y ys)
  show ?case
  proof (cases m)
    case 0
    then show ?thesis by simp
  next
    case (Suc j)
    then show ?thesis using Cons.IH [of j] by simp
  qed
qed

lemma distinct_count_list_le: "distinct xs \<Longrightarrow> count_list xs x \<le> Suc 0"
  by (induction xs) (auto simp: count_list_0_iff)

text \<open>The year that \<open>compose_name\<close> prints is the year of the specification.\<close>

lemma compose_name_derived_year:
  "compose_name a =
     (case derived_year a of None \<Rightarrow> title a | Some y \<Rightarrow> title a @ '' ('' @ y @ '')'')"
  by (simp add: compose_name_def year_of_def aired_year_def derived_year_def start_year_def
        Let_def split: option.splits)

text \<open>
  Claim C3. When the cache is empty and no candidate name yields a matching record
  (each query raises, answers with a status other than 200, or returns no record that
  matches), \<open>get_name_with_year\<close> sends one query for each candidate, returns the
  entity's name unchanged (\<open>self.name\<close>, the display name it had before the call) and
  caches it. Every later call returns that same string, changes nothing and sends no
  query, whatever the network would answer.
\<close>

theorem get_name_with_year_fallback:
  assumes "cached_name_with_year c = None"
    and "no_candidate_matches api (length (queries w)) (names_to_try c)"
  shows "get_name_with_year api c w =
           (name c, c\<lparr>cached_name_with_year := Some (name c)\<rparr>,
            w\<lparr>queries := queries w @ map query_url (names_to_try c)\<rparr>) \<and>
         (\<forall>api2 w2.
            get_name_with_year api2 (c\<lparr>cached_name_with_year := Some (name c)\<rparr>) w2 =
              (name c, c\<lparr>cached_name_with_year := Some (name c)\<rparr>, w2))"
  using assms try_names_no_match [of api w "names_to_try c"]
  by (simp add: get_name_with_year_def)

theorem get_name_with_year_fallback_witness:
  "get_name_with_year
     (\<lambda>k u. if k = 0 then ApiRaises
            else ApiStatus 200 [\<lparr>title = ''Bleach'', title_english = Some ''Bleach'',
                                 title_japanese = None, year = Some 2004, aired_from = None\<rparr>])
     (example_entity\<lparr>alternative_names := [''Naruto Shippuden'']\<rparr>) fresh_world =
   (''naruto'',
    example_entity\<lparr>alternative_names := [''Naruto Shippuden''],
                   cached_name_with_year := Some ''naruto''\<rparr>,
    \<lparr>gets = [],
     queries = [''https://api.jikan.moe/v4/anime?q=naruto&limit=3'',
                ''https://api.jikan.moe/v4/anime?q=Naruto+Shippuden&limit=3'']\<rparr>)"
proof -
  let ?api = "\<lambda>(k::nat) (u::string). if k = 0 then ApiRaises
            else ApiStatus 200 [\<lparr>title = ''Bleach'', title_english = Some ''Bleach'',
                                 title_japanese = None, year = Some 2004, aired_from = None\<rparr>]"
  let ?c = "example_entity\<lparr>alternative_names := [''Naruto Shippuden'']\<rparr>"
  have none: "cached_name_with_year ?c = None" by (simp add: example_entity_def)
  have names: "names_to_try ?c = [''naruto'', ''Naruto Shippuden'']"
    by (simp add: names_to_try_def example_entity_def)
  have nm: "\<not> record_matches ''Naruto Shippuden''
              \<lparr>title = ''Bleach'', title_english = Some ''Bleach'',
               title_japanese = None, year = Some 2004, aired_from = None\<rparr>"
    by code_simp
  have nomatch: "no_candidate_matches ?api (length (queries fresh_world)) (names_to_try ?c)"
    unfolding names using nm by (simp add: fresh_world_def)
  have urls: "map query_url [''naruto'', ''Naruto Shippuden''] =
      [''https://api.jikan.moe/v4/anime?q=naruto&limit=3'',
       ''https://api.jikan.moe/v4/anime?q=Naruto+Shippuden&limit=3'']"
    by (simp add: query_url_def)
  have nm_c: "name ?c = ''naruto''" by (simp add: example_entity_def)
  have "get_name_with_year ?api ?c fresh_world =
      (name ?c, ?c\<lparr>cached_name_with_year := Some (name ?c)\<rparr>,
       fresh_world\<lparr>queries := queries fresh_world @ map query_url (names_to_try ?c)\<rparr>)"
    using get_name_with_year_fallback [OF none nomatch] by (rule conjunct1)
  then show ?thesis
    unfolding names urls nm_c by (simp add: fresh_world_def)
qed

text \<open>
  Claim C6, as amended. When the cache is empty, the queries for the candidates before
  \<open>n\<close> yield no match, and in the answer to the query for \<open>n\<close> the record \<open>a\<close> is the
  first that matches, resolution stops there: the result is composed from \<open>a\<close> alone,
  it is cached, and no later record or candidate is considered (the log ends with the
  query for \<open>n\<close>). The result is the title followed by the year in parentheses when a
  year is derived, and the title alone otherwise. The year is the year field when that
  holds a number other than 0, else the first four characters of the start date when
  that is a non-empty string, else there is no year.
\<close>

theorem get_name_with_year_first_match:
  assumes "cached_name_with_year c = None"
    and "names_to_try c = pre @ n # post"
    and "no_candidate_matches api (length (queries w)) pre"
    and "api (length (queries w) + length pre) (query_url n) = ApiStatus 200 (before @ a # after)"
    and "\<not> list_ex (record_matches n) before"
    and "record_matches n a"
  shows "get_name_with_year api c w =
           (compose_name a, c\<lparr>cached_name_with_year := Some (compose_name a)\<rparr>,
            w\<lparr>queries := queries w @ map query_url (pre @ [n])\<rparr>) \<and>
         compose_name a =
           (case derived_year a of None \<Rightarrow> title a | Some y \<Rightarrow> title a @ '' ('' @ y @ '')'')"
proof
  have "try_records n (before @ a # after) = Some (compose_name a)"
    using assms(5,6) by (rule try_records_first)
  with assms(3,4) have "try_names api (pre @ n # post) w =
      (Some (compose_name a), w\<lparr>queries := queries w @ map query_url (pre @ [n])\<rparr>)"
    by (rule try_names_first_match)
  then show "get_name_with_year api c w =
           (compose_name a, c\<lparr>cached_name_with_year := Some (compose_name a)\<rparr>,
            w\<lparr>queries := queries w @ map query_url (pre @ [n])\<rparr>)"
    using assms(1,2) by (simp add: get_name_with_year_def)
  show "compose_name a =
           (case derived_year a of None \<Rightarrow> title a | Some y \<Rightarrow> title a @ '' ('' @ y @ '')'')"
    by (rule compose_name_derived_year)
qed

theorem get_name_with_year_first_match_witness:
  "get_name_with_year
     (\<lambda>k u. ApiStatus 200 [\<lparr>title = ''Naruto'', title_english = None,
                             title_japanese = None, year = Some 2002, aired_from = None\<rparr>])
     (example_entity\<lparr>name := ''Naruto''\<rparr>) fresh_world =
   (''Naruto (2002)'',
    example_entity\<lparr>name := ''Naruto'', cached_name_with_year := Some ''Naruto (2002)''\<rparr>,
    \<lparr>gets = [], queries = [''https://api.jikan.moe/v4/anime?q=Naruto&limit=3'']\<rparr>)"
proof -
  let ?a = "\<lparr>title = ''Naruto'', title_english = None,
             title_japanese = None, year = Some 2002, aired_from = None\<rparr>"
  let ?api = "\<lambda>(k::nat) (u::string). ApiStatus 200 [?a]"
  let ?c = "example_entity\<lparr>name := ''Naruto''\<rparr>"
  have none: "cached_name_with_year ?c = None" by (simp add: example_entity_def)
  have names: "names_to_try ?c = [] @ ''Naruto'' # []"
    by (simp add: names_to_try_def example_entity_def)
  have pre: "no_candidate_matches ?api (length (queries fresh_world)) []" by simp
  have resp: "?api (length (queries fresh_world) + length ([] :: string list)) (query_url ''Naruto'') =
      ApiStatus 200 ([] @ ?a # [])" by simp
  have before: "\<not> list_ex (record_matches ''Naruto'') []" by simp
  have m: "record_matches ''Naruto'' ?a" by code_simp
  have comp: "compose_name ?a = ''Naruto (2002)''" by code_simp
  have urls: "map query_url ([] @ [''Naruto'']) = [''https://api.jikan.moe/v4/anime?q=Naruto&limit=3'']"
    by (simp add: query_url_def)
  have "get_name_with_year ?api ?c fresh_world =
      (compose_name ?a, ?c\<lparr>cached_name_with_year := Some (compose_name ?a)\<rparr>,
       fresh_world\<lparr>queries := queries fresh_world @ map query_url ([] @ [''Naruto''])\<rparr>)"
    using get_name_with_year_first_match [OF none names pre resp before m] by (rule conjunct1)
  then show ?thesis
    unfolding comp urls by (simp add: fresh_world_def)
qed

text \<open>
  Claim C6 as stated fails for a record whose year field holds 0: the field is there,
  yet \<open>anime.get("year") or ...\<close> passes over it and the year is read from the start
  date. The result is \<open>Naruto (1999)\<close>, not \<open>Naruto (0)\<close>.
\<close>

theorem year_zero_counterexample:
  "fst (get_name_with_year
     (\<lambda>k u. ApiStatus 200 [\<lparr>title = ''Naruto'', title_english = None,
                             title_japanese = None, year = Some 0,
                             aired_from = Some ''1999-10-03''\<rparr>])
     (example_entity\<lparr>name := ''Naruto''\<rparr>) fresh_world) = ''Naruto (1999)''"
proof -
  let ?a = "\<lparr>title = ''Naruto'', title_english = None,
             title_japanese = None, year = Some 0,
             aired_from = Some ''1999-10-03''\<rparr>"
  have m: "record_matches ''Naruto'' ?a" by code_simp
  have comp: "compose_name ?a = ''Naruto (1999)''" by code_simp
  show ?thesis
    using m comp
    by (simp add: get_name_with_year_def names_to_try_def example_entity_def fresh_world_def Let_def)
qed

text \<open>
  Claim C10, as amended. For an entity constructed with a non-empty list of alternate
  names, the display name is the first alternate name, the raw name is the explicit
  name or else the piece of the URL before its last separator, and the candidates of
  the resolver are the first alternate name followed by all alternate names in order.
  A resolution queries the first \<open>m\<close> candidates of this list, in order, for some
  \<open>m\<close> of at least 1. So every name is queried at most as often as it occurs in the
  candidate list: the first alternate name at most once more than it occurs among the
  alternate names (at most twice when the alternate names are pairwise distinct), and
  the raw name never when it is not one of the alternate names. The raw name is among
  the candidates exactly when it is one of the alternate names.
\<close>

theorem init_candidates:
  assumes "init u n (Some alts) g k l i = Inr c" and "alts \<noteq> []"
  shows "name c = hd alts \<and>
         raw_name c =
           (if n \<noteq> [] then n
            else split_on CHR ''/'' u ! (length (split_on CHR ''/'' u) - 2)) \<and>
         names_to_try c = hd alts # alts \<and>
         (\<forall>api w. \<exists>m. 0 < m \<and> m \<le> length (hd alts # alts) \<and>
            queries (snd (snd (get_name_with_year api c w))) =
              queries w @ map query_url (take m (hd alts # alts)) \<and>
            (\<forall>x. count_list (take m (hd alts # alts)) x \<le>
                  count_list alts x + (if x = hd alts then 1 else 0)) \<and>
            (distinct alts \<longrightarrow> count_list (take m (hd alts # alts)) (hd alts) \<le> 2) \<and>
            (raw_name c \<notin> set alts \<longrightarrow> count_list (take m (hd alts # alts)) (raw_name c) = 0)) \<and>
         (raw_name c \<in> set (names_to_try c) \<longleftrightarrow> raw_name c \<in> set alts)"
proof -
  let ?cands = "hd alts # alts"
  from assms have nm: "name c = hd alts" and alt: "alternative_names c = alts"
    and cache: "cached_name_with_year c = None"
    and raw: "raw_name c =
           (if n \<noteq> [] then n
            else split_on CHR ''/'' u ! (length (split_on CHR ''/'' u) - 2))"
    by (auto simp: init_def neg_index_def Let_def split: if_splits sum.splits)
  have names: "names_to_try c = ?cands" by (simp add: names_to_try_def nm alt)
  have cnt: "count_list (take m ?cands) x \<le> count_list alts x + (if x = hd alts then 1 else 0)"
    for m x
  proof -
    have "count_list (take m ?cands) x \<le> count_list ?cands x" by (rule count_list_take_le)
    also have "\<dots> = count_list alts x + (if x = hd alts then 1 else 0)" by simp
    finally show ?thesis .
  qed
  have twice: "count_list (take m ?cands) (hd alts) \<le> 2" if d: "distinct alts" for m
  proof -
    have "count_list alts (hd alts) \<le> Suc 0" using d by (rule distinct_count_list_le)
    then show ?thesis using cnt [of m "hd alts"] by simp
  qed
  have never: "count_list (take m ?cands) (raw_name c) = 0" if r: "raw_name c \<notin> set alts" for m
  proof -
    have "hd alts \<in> set alts" using assms(2) by simp
    with r have "raw_name c \<noteq> hd alts" by metis
    moreover have "count_list alts (raw_name c) = 0" using r by (simp add: count_list_0_iff)
    ultimately show ?thesis using cnt [of m "raw_name c"] by simp
  qed
  have log: "\<exists>m. 0 < m \<and> m \<le> length ?cands \<and>
            queries (snd (snd (get_name_with_year api c w))) =
              queries w @ map query_url (take m ?cands) \<and>
            (\<forall>x. count_list (take m ?cands) x \<le>
                  count_list alts x + (if x = hd alts then 1 else 0)) \<and>
            (distinct alts \<longrightarrow> count_list (take m ?cands) (hd alts) \<le> 2) \<and>
            (raw_name c \<notin> set alts \<longrightarrow> count_list (take m ?cands) (raw_name c) = 0)" for api w
  proof -
    obtain m where m: "m \<le> length ?cands" "0 < m"
      "queries (snd (try_names api ?cands w)) = queries w @ map query_url (take m ?cands)"
      using try_names_log_segment [of ?cands api w] by blast
    have "queries (snd (snd (get_name_with_year api c w))) =
          queries (snd (try_names api ?cands w))"
      unfolding get_name_with_year_def cache names
      by (cases "try_names api ?cands w") (simp split: option.splits)
    with m(3) have q: "queries (snd (snd (get_name_with_year api c w))) =
        queries w @ map query_url (take m ?cands)" by simp
    show ?thesis
    proof (intro exI conjI allI impI)
      show "0 < m" by (rule m(2))
      show "m \<le> length ?cands" by (rule m(1))
      show "queries (snd (snd (get_name_with_year api c w))) =
        queries w @ map query_url (take m ?cands)" by (rule q)
      show "count_list (take m ?cands) x \<le> count_list alts x + (if x = hd alts then 1 else 0)"
        for x by (rule cnt)
      show "count_list (take m ?cands) (hd alts) \<le> 2" if "distinct alts"
        using that by (rule twice)
      show "count_list (take m ?cands) (raw_name c) = 0" if "raw_name c \<notin> set alts"
        using that by (rule never)
    qed
  qed
  have mem: "raw_name c \<in> set (names_to_try c) \<longleftrightarrow> raw_name c \<in> set alts"
    using assms(2) unfolding names by (cases alts) auto
  show ?thesis using nm raw names log mem by blast
qed

theorem init_candidates_witness:
  "(case init ''https://anime-sama.fr/catalogue/naruto/'' [] (Some [''Naruto'', ''Naruto Shippuden''])
           None None None [] of
      Inl e \<Rightarrow> False
    | Inr c \<Rightarrow> name c = ''Naruto'' \<and> raw_name c = ''naruto'' \<and>
               names_to_try c = [''Naruto'', ''Naruto'', ''Naruto Shippuden''] \<and>
               raw_name c \<notin> set (names_to_try c) \<and>
               (\<exists>m. 0 < m \<and> m \<le> 3 \<and>
                  queries (snd (snd (get_name_with_year (\<lambda>k u. ApiRaises) c fresh_world))) =
                    map query_url (take m [''Naruto'', ''Naruto'', ''Naruto Shippuden'']) \<and>
                  count_list (take m [''Naruto'', ''Naruto'', ''Naruto Shippuden'']) ''Naruto'' \<le> 2 \<and>
                  count_list (take m [''Naruto'', ''Naruto'', ''Naruto Shippuden'']) ''naruto'' = 0))"
proof -
  let ?alts = "[''Naruto'', ''Naruto Shippuden'']"
  let ?cands = "[''Naruto'', ''Naruto'', ''Naruto Shippuden'']"
  let ?c = "example_entity\<lparr>name := ''Naruto'', alternative_names := ?alts\<rparr>"
  let ?api = "\<lambda>(k::nat) (u::string). ApiRaises"
  have i: "init ''https://anime-sama.fr/catalogue/naruto/'' [] (Some ?alts) None None None [] = Inr ?c"
    by (simp add: init_def neg_index_def example_entity_def)
  have ne: "?alts \<noteq> []" by simp
  have raw: "raw_name ?c = ''naruto''" by (simp add: example_entity_def)
  have d: "distinct ?alts" by simp
  have r: "raw_name ?c \<notin> set ?alts" unfolding raw by simp
  have q: "queries fresh_world = []" by (simp add: fresh_world_def)
  have h: "hd ?alts = ''Naruto''" by simp
  note t = init_candidates [OF i ne]
  have 1: "name ?c = ''Naruto''" using t [THEN conjunct1] unfolding h .
  have 3: "names_to_try ?c = ?cands"
    using t [THEN conjunct2, THEN conjunct2, THEN conjunct1] unfolding h .
  have 4: "raw_name ?c \<notin> set (names_to_try ?c)"
    using t [THEN conjunct2, THEN conjunct2, THEN conjunct2, THEN conjunct2] r by simp
  note ex = t [THEN conjunct2, THEN conjunct2, THEN conjunct2, THEN conjunct1, THEN spec, THEN spec,
      of ?api fresh_world, unfolded h q append_Nil]
  from ex obtain m where m1: "0 < m" and m2: "m \<le> length ?cands"
    and m3: "queries (snd (snd (get_name_with_year ?api ?c fresh_world))) =
        map query_url (take m ?cands)"
    and m4: "distinct ?alts \<longrightarrow> count_list (take m ?cands) ''Naruto'' \<le> 2"
    and m5: "raw_name ?c \<notin> set ?alts \<longrightarrow> count_list (take m ?cands) (raw_name ?c) = 0"
    by (elim exE conjE)
  have n2: "m \<le> 3" using m2 by simp
  have n4: "count_list (take m ?cands) ''Naruto'' \<le> 2" using m4 d by (rule mp)
  have n5: "count_list (take m ?cands) ''naruto'' = 0" using m5 [THEN mp, OF r] unfolding raw .
  have 5: "\<exists>m. 0 < m \<and> m \<le> 3 \<and>
                  queries (snd (snd (get_name_with_year ?api ?c fresh_world))) =
                    map query_url (take m ?cands) \<and>
                  count_list (take m ?cands) ''Naruto'' \<le> 2 \<and>
                  count_list (take m ?cands) ''naruto'' = 0"
    by (intro exI [of _ m] conjI m1 n2 m3 n4 n5)
  show ?thesis unfolding i sum.case
    by (intro conjI 1 raw 3 4 5)
qed

text \<open>
  Claim C10 as stated fails when the raw name is itself an alternate name: for the URL
  of \<open>naruto\<close> with the one alternate name \<open>naruto\<close>, the raw name is \<open>naruto\<close> and
  it is queried, twice when both queries fail. It also fails when the first alternate
  name is repeated in the list: with the alternate names \<open>Naruto\<close>, \<open>Naruto\<close> it is
  queried three times.
\<close>

theorem raw_name_queried_counterexample:
  "(case init ''https://anime-sama.fr/catalogue/naruto/'' [] (Some [''naruto''])
           None None None [] of
      Inl e \<Rightarrow> False
    | Inr c \<Rightarrow> raw_name c = ''naruto'' \<and>
               queries (snd (snd (get_name_with_year (\<lambda>k u. ApiRaises) c fresh_world))) =
                 [''https://api.jikan.moe/v4/anime?q=naruto&limit=3'',
                  ''https://api.jikan.moe/v4/anime?q=naruto&limit=3'']) \<and>
   (case init ''https://anime-sama.fr/catalogue/naruto/'' [] (Some [''Naruto'', ''Naruto''])
           None None None [] of
      Inl e \<Rightarrow> False
    | Inr c \<Rightarrow> queries (snd (snd (get_name_with_year (\<lambda>k u. ApiRaises) c fresh_world))) =
                 [''https://api.jikan.moe/v4/anime?q=Naruto&limit=3'',
                  ''https://api.jikan.moe/v4/anime?q=Naruto&limit=3'',
                  ''https://api.jikan.moe/v4/anime?q=Naruto&limit=3''])"
  by (simp add: init_def neg_index_def get_name_with_year_def names_to_try_def query_url_def
        fresh_world_def Let_def)

section \<open>Season discovery on a page of well-formed declarations\<close>

text \<open>Two texts that agree up to the first occurrence of a character agree piece by piece.\<close>

lemma split_at_first:
  "x \<notin> set a \<Longrightarrow> x \<notin> set b \<Longrightarrow> a @ x # u = b @ x # v \<Longrightarrow> a = b \<and> u = v"
proof (induction a arbitrary: b)
  case Nil
  then show ?case by (cases b) auto
next
  case (Cons y ys)
  then show ?case by (cases b) auto
qed

text \<open>
  The end of the pattern matches right after the link suffix of a declaration, and
  nowhere inside a suffix without double quote.
\<close>

lemma end_marker_here: "end_marker (marker_text m @ dquote # '');'' @ r) = Some r"
  by (cases m) (simp_all add: end_marker_def)

lemma end_marker_Some:
  "end_marker s = Some r \<longleftrightarrow> s = ''vostfr'' @ dquote # '');'' @ r \<or> s = ''vf'' @ dquote # '');'' @ r"
  by (auto simp: end_marker_def strip_prefix_Some split: option.splits)

lemma marker_text_no_quote: "dquote \<notin> set (marker_text m)"
  by (cases m) simp_all

lemma link_marker_neq_vostfr:
  assumes "l \<noteq> []"
  shows "l @ marker_text m \<noteq> ''vostfr''"
proof
  assume e: "l @ marker_text m = ''vostfr''"
  show False
  proof (cases m)
    case Vostfr
    with e have "l @ ''vostfr'' = ''vostfr''" by simp
    then have "l = []" by (simp only: append_self_conv2)
    with assms show False by simp
  next
    case Vf
    with e have "l @ ''vf'' = ''vost'' @ ''fr''" by simp
    moreover have "(l @ ''vf'' = ''vost'' @ ''fr'') = (l = ''vost'' \<and> ''vf'' = ''fr'')"
      by (rule append_eq_append_conv) simp
    ultimately have "l = ''vost'' \<and> ''vf'' = ''fr''" by (rule iffD1 [OF _ , rotated])
    then show False by simp
  qed
qed

lemma link_marker_neq_vf:
  assumes "l \<noteq> []"
  shows "l @ marker_text m \<noteq> ''vf''"
proof
  assume e: "l @ marker_text m = ''vf''"
  show False
  proof (cases m)
    case Vostfr
    with e have "length (l @ ''vostfr'') = length ''vf''" by (simp only: marker_text.simps)
    then show False by simp
  next
    case Vf
    with e have "l @ ''vf'' = ''vf''" by simp
    then have "l = []" by (simp only: append_self_conv2)
    with assms show False by simp
  qed
qed

lemma end_marker_inside:
  assumes "l \<noteq> []" and "dquote \<notin> set l"
  shows "end_marker (l @ marker_text m @ dquote # '');'' @ r) = None"
proof (cases "end_marker (l @ marker_text m @ dquote # '');'' @ r)")
  case None
  then show ?thesis .
next
  case (Some r')
  have nq: "dquote \<notin> set (l @ marker_text m)"
    using assms(2) marker_text_no_quote [of m] by simp
  have q1: "dquote \<notin> set ''vostfr''" and q2: "dquote \<notin> set ''vf''" by simp_all
  from Some have "l @ marker_text m @ dquote # '');'' @ r = ''vostfr'' @ dquote # '');'' @ r' \<or>
             l @ marker_text m @ dquote # '');'' @ r = ''vf'' @ dquote # '');'' @ r'"
    by (simp only: end_marker_Some)
  then show ?thesis
  proof
    assume "l @ marker_text m @ dquote # '');'' @ r = ''vostfr'' @ dquote # '');'' @ r'"
    then have "(l @ marker_text m) @ dquote # ('');'' @ r) = ''vostfr'' @ dquote # ('');'' @ r')"
      by (simp only: append_assoc)
    with nq q1 have "l @ marker_text m = ''vostfr'' \<and> '');'' @ r = '');'' @ r'"
      by (rule split_at_first)
    then have "l @ marker_text m = ''vostfr''" by (rule conjunct1)
    with link_marker_neq_vostfr [OF assms(1), of m] show ?thesis by (rule notE)
  next
    assume "l @ marker_text m @ dquote # '');'' @ r = ''vf'' @ dquote # '');'' @ r'"
    then have "(l @ marker_text m) @ dquote # ('');'' @ r) = ''vf'' @ dquote # ('');'' @ r')"
      by (simp only: append_assoc)
    with nq q2 have "l @ marker_text m = ''vf'' \<and> '');'' @ r = '');'' @ r'"
      by (rule split_at_first)
    then have "l @ marker_text m = ''vf''" by (rule conjunct1)
    with link_marker_neq_vf [OF assms(1), of m] show ?thesis by (rule notE)
  qed
qed

text \<open>
  So the lazy groups stop where the declaration says: the second group holds the link
  suffix, the first group the name.
\<close>

lemma match_link_exact:
  "l \<noteq> [] \<Longrightarrow> dquote \<notin> set l \<Longrightarrow> newline \<notin> set l \<Longrightarrow>
   match_link acc (l @ marker_text m @ dquote # '');'' @ r) = Some (acc @ l, r)"
proof (induction l arbitrary: acc)
  case Nil
  then show ?case by simp
next
  case (Cons c cs)
  from Cons.prems have c: "c \<noteq> newline" by auto
  show ?case
  proof (cases "cs = []")
    case True
    have "match_link acc (c # marker_text m @ dquote # '');'' @ r) = Some (acc @ [c], r)"
      unfolding match_link.simps end_marker_here using c by simp
    then show ?thesis using True by simp
  next
    case False
    from Cons.prems have q: "dquote \<notin> set cs" and n: "newline \<notin> set cs" by auto
    have e: "end_marker (cs @ marker_text m @ dquote # '');'' @ r) = None"
      using False q by (rule end_marker_inside)
    have "match_link acc (c # cs @ marker_text m @ dquote # '');'' @ r) =
          match_link (acc @ [c]) (cs @ marker_text m @ dquote # '');'' @ r)"
      unfolding match_link.simps e using c by simp
    also have "\<dots> = Some ((acc @ [c]) @ cs, r)" using False q n by (rule Cons.IH)
    finally show ?thesis by simp
  qed
qed

lemma match_tail_exact:
  assumes "l \<noteq> []" and "dquote \<notin> set l" and "newline \<notin> set l"
  shows "match_tail ([dquote, CHR '',''] @ replicate k CHR '' '' @ [dquote] @ l @
           marker_text m @ [dquote] @ '');'' @ r) = Some (l, r)"
proof -
  have d: "dropWhile (\<lambda>c. c = CHR '' '')
        (replicate k CHR '' '' @ dquote # l @ marker_text m @ dquote # '');'' @ r) =
      dquote # l @ marker_text m @ dquote # '');'' @ r"
    by (induction k) simp_all
  have l: "match_link [] (l @ marker_text m @ dquote # '');'' @ r) = Some ([] @ l, r)"
    using assms by (rule match_link_exact)
  have s1: "strip_prefix [dquote, CHR '','']
       ([dquote, CHR '',''] @ replicate k CHR '' '' @ [dquote] @ l @
           marker_text m @ [dquote] @ '');'' @ r) =
       Some (replicate k CHR '' '' @ dquote # l @ marker_text m @ dquote # '');'' @ r)"
    by (simp only: strip_prefix_Some) simp
  have s2: "strip_prefix [dquote] (dquote # l @ marker_text m @ dquote # '');'' @ r) =
       Some (l @ marker_text m @ dquote # '');'' @ r)"
    by (simp only: strip_prefix_Some) simp
  show ?thesis
    unfolding match_tail_def s1 option.case d s2 l by simp
qed

lemma match_tail_not_quote: "c \<noteq> dquote \<Longrightarrow> match_tail (c # s) = None"
  by (simp add: match_tail_def)

lemma match_name_exact:
  "n \<noteq> [] \<Longrightarrow> dquote \<notin> set n \<Longrightarrow> newline \<notin> set n \<Longrightarrow> match_tail t = Some (l, r) \<Longrightarrow>
   match_name acc (n @ t) = Some (acc @ n, l, r)"
proof (induction n arbitrary: acc)
  case Nil
  then show ?case by simp
next
  case (Cons c cs)
  from Cons.prems have c: "c \<noteq> newline" by auto
  show ?case
  proof (cases cs)
    case Nil
    have "match_name acc (c # t) = Some (acc @ [c], l, r)"
      unfolding match_name.simps Cons.prems(4) using c by simp
    then show ?thesis using Nil by simp
  next
    case (Cons c' cs')
    from Cons.prems(2) Cons have "c' \<noteq> dquote" by auto
    then have "match_tail (c' # cs' @ t) = None" by (rule match_tail_not_quote)
    then have e: "match_tail (cs @ t) = None" unfolding Cons by (simp only: append_Cons)
    from Cons.prems Cons have ne: "cs \<noteq> []" and q: "dquote \<notin> set cs" and nl: "newline \<notin> set cs"
      by auto
    have "match_name acc (c # cs @ t) = match_name (acc @ [c]) (cs @ t)"
      unfolding match_name.simps e using c by simp
    also have "\<dots> = Some ((acc @ [c]) @ cs, l, r)" using ne q nl Cons.prems(4) by (rule Cons.IH)
    finally show ?thesis by simp
  qed
qed

lemma match_at_opening:
  "match_at s = (case strip_prefix opening_text s of None \<Rightarrow> None | Some r \<Rightarrow> match_name [] r)"
  by (simp add: match_at_def opening_text_def)

lemma match_at_render:
  assumes "well_formed d"
  shows "match_at (render_decl d @ r) = Some (decl_name d, decl_link d, r)"
proof -
  let ?t = "[dquote, CHR '',''] @ replicate (decl_spaces d) CHR '' '' @ [dquote] @ decl_link d @
           marker_text (decl_marker d) @ [dquote] @ '');'' @ r"
  from assms have n: "decl_name d \<noteq> []" "dquote \<notin> set (decl_name d)" "newline \<notin> set (decl_name d)"
    and l: "decl_link d \<noteq> []" "dquote \<notin> set (decl_link d)" "newline \<notin> set (decl_link d)"
    by (simp_all add: well_formed_def plain_text_def)
  have t: "match_tail ?t = Some (decl_link d, r)" using l by (rule match_tail_exact)
  have nm: "match_name [] (decl_name d @ ?t) = Some ([] @ decl_name d, decl_link d, r)"
    using n t by (rule match_name_exact)
  have r: "render_decl d @ r = opening_text @ decl_name d @ ?t"
    by (simp add: render_decl_def)
  have sp: "strip_prefix opening_text (opening_text @ decl_name d @ ?t) = Some (decl_name d @ ?t)"
    by (simp only: strip_prefix_Some)
  show ?thesis
    unfolding r match_at_opening sp option.case nm by simp
qed

text \<open>
  The opening text of the pattern overlaps itself nowhere, so in a text without it no
  match starts, whatever declaration follows; \<open>findall_panneau\<close> passes over such a
  text.
\<close>

lemma opening_facts:
  "opening_text \<noteq> []" "hd opening_text = CHR ''p''" "CHR ''p'' \<notin> set (tl opening_text)"
  by (simp_all add: opening_text_def)

lemma opening_not_at:
  assumes "\<not> sublist opening_text s" and "s \<noteq> []" and "x = [] \<or> prefix opening_text x"
  shows "strip_prefix opening_text (s @ x) = None"
proof (cases "strip_prefix opening_text (s @ x)")
  case None
  then show ?thesis .
next
  case (Some r)
  then have e: "s @ x = opening_text @ r" by (simp only: strip_prefix_Some)
  show ?thesis
  proof (cases "length opening_text \<le> length s")
    case True
    from e have "take (length opening_text) (s @ x) = take (length opening_text) (opening_text @ r)"
      by (rule arg_cong)
    with True have "take (length opening_text) s = opening_text" by simp
    then have "prefix opening_text s" by (metis take_is_prefix)
    then have "sublist opening_text s" by (rule prefix_imp_sublist)
    with assms(1) show ?thesis by (rule notE)
  next
    case False
    then have lt: "length s < length opening_text" by simp
    have pos: "0 < length s" using assms(2) by simp
    have "x \<noteq> []"
    proof
      assume "x = []"
      with e have "length s = length (opening_text @ r)" by simp
      with lt show False by simp
    qed
    with assms(3) obtain y where x: "x = opening_text @ y" by (auto simp: prefix_def)
    have "(s @ x) ! length s = hd opening_text"
      unfolding x using opening_facts(1) by (simp add: nth_append hd_conv_nth)
    moreover have "(opening_text @ r) ! length s = opening_text ! length s"
      using lt by (simp add: nth_append)
    ultimately have p: "opening_text ! length s = CHR ''p''"
      using e opening_facts(2) by simp
    have in_tl: "length s - 1 < length (tl opening_text)"
      using lt pos unfolding length_tl by arith
    then have "tl opening_text ! (length s - 1) = opening_text ! Suc (length s - 1)"
      by (rule nth_tl)
    moreover have "Suc (length s - 1) = length s" using pos by arith
    ultimately have "opening_text ! length s = tl opening_text ! (length s - 1)" by simp
    moreover have "tl opening_text ! (length s - 1) \<in> set (tl opening_text)"
      using in_tl by (rule nth_mem)
    ultimately have "CHR ''p'' \<in> set (tl opening_text)" using p by simp
    with opening_facts(3) show ?thesis by (rule notE)
  qed
qed

lemma findall_skip:
  "\<not> sublist opening_text s \<Longrightarrow> x = [] \<or> prefix opening_text x \<Longrightarrow>
   findall_panneau (s @ x) = findall_panneau x"
proof (induction s)
  case Nil
  show ?case by simp
next
  case (Cons c cs)
  have ne: "c # cs \<noteq> []" by simp
  have "strip_prefix opening_text ((c # cs) @ x) = None"
    using Cons.prems(1) ne Cons.prems(2) by (rule opening_not_at)
  then have m: "match_at (c # cs @ x) = None" by (simp add: match_at_opening)
  have "\<not> sublist opening_text cs" using Cons.prems(1) by (auto simp: sublist_Cons_right)
  then have IH: "findall_panneau (cs @ x) = findall_panneau x"
    using Cons.prems(2) by (rule Cons.IH)
  show ?case using m IH by simp
qed

lemma findall_render:
  assumes "well_formed d"
  shows "findall_panneau (render_decl d @ r) = (decl_name d, decl_link d) # findall_panneau r"
proof -
  obtain c cs where cs: "render_decl d @ r = c # cs"
    by (cases "render_decl d @ r") (simp_all add: render_decl_def opening_text_def)
  have "match_at (c # cs) = Some (decl_name d, decl_link d, r)"
    using match_at_render [OF assms, of r] unfolding cs .
  then have "findall_panneau (c # cs) = (decl_name d, decl_link d) # findall_panneau r" by simp
  then show ?thesis unfolding cs .
qed

lemma findall_render_body:
  "\<not> sublist opening_text sep0 \<Longrightarrow>
   list_all (\<lambda>(d, sep). well_formed d \<and> \<not> sublist opening_text sep) items \<Longrightarrow>
   findall_panneau (render_body sep0 items) = map (\<lambda>(d, sep). (decl_name d, decl_link d)) items"
proof (induction items arbitrary: sep0)
  case Nil
  have "findall_panneau (sep0 @ []) = findall_panneau []"
    using Nil.prems(1) by (rule findall_skip) simp
  then show ?case by simp
next
  case (Cons item items)
  obtain d sep where item: "item = (d, sep)" by (cases item)
  from Cons.prems(2) item have wf: "well_formed d" and sep: "\<not> sublist opening_text sep"
    and rest: "list_all (\<lambda>(d, sep). well_formed d \<and> \<not> sublist opening_text sep) items"
    by simp_all
  have pre: "prefix opening_text (render_decl d @ render_body sep items)"
    by (simp add: render_decl_def)
  have "findall_panneau (render_body sep0 (item # items)) =
        findall_panneau (sep0 @ (render_decl d @ render_body sep items))"
    unfolding item by simp
  also have "\<dots> = findall_panneau (render_decl d @ render_body sep items)"
    using Cons.prems(1) by (rule findall_skip) (rule disjI2, rule pre)
  also have "\<dots> = (decl_name d, decl_link d) # findall_panneau (render_body sep items)"
    using wf by (rule findall_render)
  also have "findall_panneau (render_body sep items) =
      map (\<lambda>(d, sep). (decl_name d, decl_link d)) items"
    using sep rest by (rule Cons.IH)
  finally show ?case unfolding item by simp
qed

lemma map_found:
  "map (\<lambda>(nm, link). \<lparr>season_url = u @ link, season_name = nm, serie_name = full\<rparr>)
     (map (\<lambda>(d, sep). (decl_name d, decl_link d)) items) =
   map (\<lambda>(d, sep). \<lparr>season_url = u @ decl_link d, season_name = decl_name d, serie_name = full\<rparr>)
     items"
  by (induction items) auto

text \<open>
  Claim C2, as amended. Let the page be fetched (or cached) and let its cleaned body
  consist of \<open>N\<close> well-formed declarations: names and link suffixes that are not
  empty and hold neither a double quote nor a line break, any number of spaces after the
  comma, one of the two markers, and before, between and after the declarations any
  text in which the opening \<^verbatim>\<open>panneauAnime("\<close> does not occur. Then \<open>seasons\<close>
  returns exactly \<open>N\<close> records, in document order; each has the name of its
  declaration, the entity's canonical URL followed by the link suffix without the
  marker, and the resolved series name.
\<close>

theorem seasons_of_declarations:
  assumes "page http c w = (Inr p, c1, w1)"
    and "remove_some_js_comments p = render_body sep0 items"
    and "\<not> sublist opening_text sep0"
    and "list_all (\<lambda>(d, sep). well_formed d \<and> \<not> sublist opening_text sep) items"
  shows "seasons remove_some_js_comments http api c w =
           (Inr (map (\<lambda>(d, sep).
                   \<lparr>season_url = url c @ decl_link d, season_name = decl_name d,
                    serie_name = fst (get_name_with_year api c1 w1)\<rparr>) items),
            snd (get_name_with_year api c1 w1)) \<and>
         (case fst (seasons remove_some_js_comments http api c w) of
            Inl e \<Rightarrow> False
          | Inr found \<Rightarrow> length found = length items)"
proof -
  have f: "findall_panneau (remove_some_js_comments p) =
      map (\<lambda>(d, sep). (decl_name d, decl_link d)) items"
    unfolding assms(2) using assms(3,4) by (rule findall_render_body)
  have m: "map (\<lambda>(nm, link). \<lparr>season_url = url c @ link, season_name = nm, serie_name = full\<rparr>)
        (findall_panneau (remove_some_js_comments p)) =
      map (\<lambda>(d, sep).
             \<lparr>season_url = url c @ decl_link d, season_name = decl_name d, serie_name = full\<rparr>)
        items" for full
    unfolding f by (rule map_found)
  obtain full c2 w2 where g: "get_name_with_year api c1 w1 = (full, c2, w2)"
    by (cases "get_name_with_year api c1 w1")
  have s: "seasons remove_some_js_comments http api c w =
           (Inr (map (\<lambda>(d, sep).
                   \<lparr>season_url = url c @ decl_link d, season_name = decl_name d,
                    serie_name = fst (get_name_with_year api c1 w1)\<rparr>) items),
            snd (get_name_with_year api c1 w1))"
    by (simp add: seasons_def assms(1) g Let_def m)
  show ?thesis unfolding s by simp
qed

theorem seasons_of_declarations_witness:
  "example_page = render_body (''<script>'' @ [newline]) example_decls \<and>
   fst (seasons (\<lambda>s. s) (\<lambda>k u. HttpResponse True example_page) (\<lambda>k u. ApiRaises)
          example_entity fresh_world) =
   Inr [\<lparr>season_url = ''https://anime-sama.fr/catalogue/naruto/saison1/'',
         season_name = ''Saison 1'', serie_name = ''naruto''\<rparr>,
        \<lparr>season_url = ''https://anime-sama.fr/catalogue/naruto/film/'',
         season_name = ''Film'', serie_name = ''naruto''\<rparr>]"
proof -
  let ?http = "\<lambda>(k::nat) (u::string). HttpResponse True example_page"
  let ?api = "\<lambda>(k::nat) (u::string). ApiRaises"
  let ?sep0 = "''<script>'' @ [newline]"
  let ?c1 = "example_entity\<lparr>cached_page := Some example_page\<rparr>"
  let ?w1 = "fresh_world\<lparr>gets := gets fresh_world @ [url example_entity]\<rparr>"
  have pg: "page ?http example_entity fresh_world = (Inr example_page, ?c1, ?w1)"
    by (simp add: page_def example_entity_def Let_def)
  have body: "example_page = render_body ?sep0 example_decls"
    by (simp add: example_page_def example_decls_def render_decl_def opening_text_def)
  have body': "(\<lambda>s. s) example_page = render_body ?sep0 example_decls"
    using body by simp
  have s0: "\<not> sublist opening_text ?sep0" by code_simp
  have its: "list_all (\<lambda>(d, sep). well_formed d \<and> \<not> sublist opening_text sep) example_decls"
    unfolding example_decls_def by code_simp
  have gn: "fst (get_name_with_year ?api ?c1 w) = ''naruto''" for w
    by (simp add: get_name_with_year_def names_to_try_def example_entity_def Let_def)
  have u: "url example_entity = ''https://anime-sama.fr/catalogue/naruto/''"
    by (simp add: example_entity_def)
  note t = seasons_of_declarations
    [where remove_some_js_comments = "\<lambda>s. s" and http = ?http and c = example_entity
       and w = fresh_world and p = example_page and ?c1.0 = ?c1 and ?w1.0 = ?w1
       and ?sep0.0 = ?sep0 and items = example_decls and api = ?api,
     OF pg body' s0 its, THEN conjunct1]
  have "fst (seasons (\<lambda>s. s) ?http ?api example_entity fresh_world) =
      Inr (map (\<lambda>(d, sep).
                   \<lparr>season_url = url example_entity @ decl_link d, season_name = decl_name d,
                    serie_name = fst (get_name_with_year ?api ?c1 ?w1)\<rparr>) example_decls)"
    unfolding t by (rule fst_conv)
  then have "fst (seasons (\<lambda>s. s) ?http ?api example_entity fresh_world) =
      Inr [\<lparr>season_url = ''https://anime-sama.fr/catalogue/naruto/saison1/'',
         season_name = ''Saison 1'', serie_name = ''naruto''\<rparr>,
        \<lparr>season_url = ''https://anime-sama.fr/catalogue/naruto/film/'',
         season_name = ''Film'', serie_name = ''naruto''\<rparr>]"
    unfolding gn u by (simp add: example_decls_def)
  with body show ?thesis by (rule conjI)
qed

text \<open>
  Claim C2 as stated fails on a body with two declarations of which the first has a
  marker and no link suffix: the second group of the pattern needs one character at
  least, so it runs on to the marker of the second declaration. \<open>seasons\<close> returns one
  record for the two declarations, and its link is not the suffix of either.
\<close>

theorem seasons_swallowed_counterexample:
  "example_page_without_suffix =
     render_body []
       [(\<lparr>decl_name = ''Film'', decl_spaces = 1, decl_link = [], decl_marker = Vostfr\<rparr>, []),
        (\<lparr>decl_name = ''Saison 1'', decl_spaces = 1, decl_link = ''saison1/'',
          decl_marker = Vostfr\<rparr>, [])] \<and>
   fst (seasons (\<lambda>s. s) (\<lambda>k u. HttpResponse True example_page_without_suffix)
          (\<lambda>k u. ApiRaises) example_entity fresh_world) =
   Inr [\<lparr>season_url = ''https://anime-sama.fr/catalogue/naruto/'' @
           ''vostfr'' @ [dquote] @ '');panneauAnime('' @ [dquote] @ ''Saison 1'' @ [dquote] @
           '', '' @ [dquote] @ ''saison1/'',
         season_name = ''Film'', serie_name = ''naruto''\<rparr>]"
proof (intro conjI)
  show "example_page_without_suffix =
     render_body []
       [(\<lparr>decl_name = ''Film'', decl_spaces = 1, decl_link = [], decl_marker = Vostfr\<rparr>, []),
        (\<lparr>decl_name = ''Saison 1'', decl_spaces = 1, decl_link = ''saison1/'',
          decl_marker = Vostfr\<rparr>, [])]"
    by (simp add: example_page_without_suffix_def render_decl_def opening_text_def)
  show "fst (seasons (\<lambda>s. s) (\<lambda>k u. HttpResponse True example_page_without_suffix)
          (\<lambda>k u. ApiRaises) example_entity fresh_world) =
   Inr [\<lparr>season_url = ''https://anime-sama.fr/catalogue/naruto/'' @
           ''vostfr'' @ [dquote] @ '');panneauAnime('' @ [dquote] @ ''Saison 1'' @ [dquote] @
           '', '' @ [dquote] @ ''saison1/'',
         season_name = ''Film'', serie_name = ''naruto''\<rparr>]"
    by code_simp
qed

end
